theory Spec2Isabelle
  imports Complex_Main "HOL-Library.Word"
begin

section \<open>The parameter bag: class VideoParameters\<close>

text \<open>
  The C++ type \<open>int\<close> of keys and values is a 32-bit two's complement integer. Keys are
  only compared for equality; values are converted by \<open>castParameterTo\<close>.
\<close>

type_synonym int32 = "32 word"

text \<open>
  \<open>CV_Error_\<close> throws: the two conditions raised by the class are the constructors of
  this type. \<open>StsBadArg\<close> carries the key that the message is formatted with.
\<close>

datatype cv_Exception = StsVecLengthErr | StsBadArg int32

text \<open>
  \<open>castParameterTo<T>\<close>: the generic template is \<open>static_cast<T>(paramValue)\<close>. For an
  integer type \<open>T\<close> of any width that is the value of the source reduced modulo the width
  of \<open>T\<close> (sign extension when widening, truncation when narrowing), which is
  \<open>scast\<close>; for \<open>T = int\<close> it is the identity; for \<open>T = double\<close> it is the exact
  value (every 32-bit integer is a double). The specialisation for \<open>bool\<close> is
  \<open>paramValue != 0\<close>.
\<close>

definition castParameterTo :: "int32 \<Rightarrow> 'a::len word" where
  "castParameterTo paramValue = scast paramValue"

definition castParameterTo_int :: "int32 \<Rightarrow> int32" where
  "castParameterTo_int paramValue = paramValue"

definition castParameterTo_double :: "int32 \<Rightarrow> real" where
  "castParameterTo_double paramValue = real_of_int (sint paramValue)"

definition castParameterTo_bool :: "int32 \<Rightarrow> bool" where
  "castParameterTo_bool paramValue = (paramValue \<noteq> 0)"

text \<open>
  \<open>struct VideoParameter\<close>; the field \<open>value\<close> is called \<open>val\<close> here. The default
  member initialisers give \<open>-1\<close>, \<open>-1\<close>, \<open>false\<close>; the two-argument constructor sets
  key and value and leaves \<open>isConsumed\<close> at its initialiser.
\<close>

record VideoParameter =
  key :: int32
  val :: int32
  isConsumed :: bool

definition VideoParameter_default :: VideoParameter where
  "VideoParameter_default = \<lparr>key = - 1, val = - 1, isConsumed = False\<rparr>"

definition VideoParameter_ctor :: "int32 \<Rightarrow> int32 \<Rightarrow> VideoParameter" where
  "VideoParameter_ctor k v = VideoParameter_default\<lparr>key := k, val := v\<rparr>"

text \<open>\<open>class VideoParameters\<close>: its only member is the vector \<open>params_\<close>.\<close>

record VideoParameters =
  params :: "VideoParameter list"

definition VideoParameters_default :: VideoParameters where
  "VideoParameters_default = \<lparr>params = []\<rparr>"

text \<open>\<open>add\<close>: \<open>params_.emplace_back(key, value)\<close>.\<close>

definition add :: "VideoParameters \<Rightarrow> int32 \<Rightarrow> int32 \<Rightarrow> VideoParameters" where
  "add B k v = B\<lparr>params := params B @ [VideoParameter_ctor k v]\<rparr>"

text \<open>
  The constructor from \<open>std::vector<int>\<close>: the length check, then the loop
  \<open>for (i = 0; i < count; i += 2) add(params[i], params[i + 1])\<close>. The loop is only
  entered with an even \<open>count\<close>, so \<open>i + 1\<close> is in range whenever \<open>i\<close> is.
\<close>

function ctor_loop :: "int32 list \<Rightarrow> nat \<Rightarrow> nat \<Rightarrow> VideoParameters \<Rightarrow> VideoParameters" where
  "ctor_loop ps count i B =
     (if i < count then ctor_loop ps count (i + 2) (add B (ps ! i) (ps ! (i + 1))) else B)"
  by pat_completeness auto
termination
  by (relation "measure (\<lambda>(ps, count, i, B). count - i)") auto

declare ctor_loop.simps [simp del]

definition VideoParameters_ctor :: "int32 list \<Rightarrow> cv_Exception + VideoParameters" where
  "VideoParameters_ctor ps =
     (let count = length ps in
      if count mod 2 \<noteq> 0 then Inl StsVecLengthErr
      else Inr (ctor_loop ps count 0 VideoParameters_default))"

text \<open>
  \<open>std::find_if\<close> over a vector: iterators are positions, \<open>end()\<close> is the length. The
  result is the first position whose element satisfies the predicate, or \<open>end()\<close>.
\<close>

fun find_if :: "('a \<Rightarrow> bool) \<Rightarrow> 'a list \<Rightarrow> nat" where
  "find_if P [] = 0"
| "find_if P (x # xs) = (if P x then 0 else Suc (find_if P xs))"

definition has :: "VideoParameters \<Rightarrow> int32 \<Rightarrow> bool" where
  "has B k =
     (let it = find_if (\<lambda>param. key param = k) (params B) in it \<noteq> length (params B))"

text \<open>
  The two \<open>get\<close> templates take the instance of \<open>castParameterTo\<close> they call as an
  argument. \<open>isConsumed\<close> is \<open>mutable\<close>: the \<open>const\<close> member functions write it, so each
  returns the bag as it is after the call, next to the value.
\<close>

definition get :: "(int32 \<Rightarrow> 'a) \<Rightarrow> VideoParameters \<Rightarrow> int32 \<Rightarrow> cv_Exception + ('a \<times> VideoParameters)" where
  "get cast B k =
     (let it = find_if (\<lambda>param. key param = k) (params B) in
      if it \<noteq> length (params B)
      then Inr (cast (val (params B ! it)),
                B\<lparr>params := (params B)[it := (params B ! it)\<lparr>isConsumed := True\<rparr>]\<rparr>)
      else Inl (StsBadArg k))"

definition get_default :: "(int32 \<Rightarrow> 'a) \<Rightarrow> VideoParameters \<Rightarrow> int32 \<Rightarrow> 'a \<Rightarrow> 'a \<times> VideoParameters" where
  "get_default cast B k defaultValue =
     (let it = find_if (\<lambda>param. key param = k) (params B) in
      if it \<noteq> length (params B)
      then (cast (val (params B ! it)),
            B\<lparr>params := (params B)[it := (params B ! it)\<lparr>isConsumed := True\<rparr>]\<rparr>)
      else (defaultValue, B))"

text \<open>\<open>getUnused\<close> and \<open>getIntVector\<close>: range-for loops that \<open>push_back\<close>.\<close>

definition getUnused :: "VideoParameters \<Rightarrow> int32 list" where
  "getUnused B =
     fold (\<lambda>param unusedParams.
             if \<not> isConsumed param then unusedParams @ [key param] else unusedParams)
          (params B) []"

definition getIntVector :: "VideoParameters \<Rightarrow> int32 list" where
  "getIntVector B =
     fold (\<lambda>param vint_params. (vint_params @ [key param]) @ [val param]) (params B) []"

definition empty_params :: "VideoParameters \<Rightarrow> bool" where
  "empty_params B = (params B = [])"

text \<open>
  A typed lookup as a caller makes it: the required form \<open>get<T>(key)\<close> or the optional
  form \<open>get<T>(key, defaultValue)\<close>, each with the instance of \<open>castParameterTo\<close> of
  its own \<open>T\<close>. The results of one sequence of lookups are kept in one type \<open>'a\<close>
  (a sum type when the lookups have different \<open>T\<close>).
\<close>

datatype 'a lookup = Required "int32 \<Rightarrow> 'a" int32 | Optional "int32 \<Rightarrow> 'a" int32 'a

fun lookup_key :: "'a lookup \<Rightarrow> int32" where
  "lookup_key (Required cast k) = k"
| "lookup_key (Optional cast k defaultValue) = k"

fun is_Required :: "'a lookup \<Rightarrow> bool" where
  "is_Required (Required cast k) = True"
| "is_Required (Optional cast k defaultValue) = False"

fun run_lookup :: "VideoParameters \<Rightarrow> 'a lookup \<Rightarrow> cv_Exception + ('a \<times> VideoParameters)" where
  "run_lookup B (Required cast k) = get cast B k"
| "run_lookup B (Optional cast k defaultValue) = Inr (get_default cast B k defaultValue)"

text \<open>
  A caller that makes the lookups \<open>ls\<close> one after the other, passing the bag along and
  dropping the values; the first failing lookup ends it, as the exception would.
\<close>

fun run_lookups :: "VideoParameters \<Rightarrow> 'a lookup list \<Rightarrow> cv_Exception + VideoParameters" where
  "run_lookups B [] = Inr B"
| "run_lookups B (l # ls) =
     (case run_lookup B l of Inl e \<Rightarrow> Inl e | Inr r \<Rightarrow> run_lookups (snd r) ls)"

section \<open>Legacy structs: CvCapture and CvVideoWriter\<close>

text \<open>
  \<open>IplImage\<close>: of the C struct the adapter reads the field \<open>origin\<close>; the pixel data is
  kept as the list of its rows in storage order (the row at the lowest address first).
\<close>

record 'px IplImage =
  origin :: int32
  imageData :: "'px list list"

text \<open>
  Modelled from the spec: the macros \<open>IPL_ORIGIN_TL\<close> and \<open>IPL_ORIGIN_BL\<close> come from
  \<open>opencv2/core/types_c.h\<close>, which is not among the sources. They are the two row-origin
  tags of the spec, top-to-bottom and bottom-to-top; OpenCV's values are 0 and 1, and
  the adapter only tests equality with the first.
\<close>

definition IPL_ORIGIN_TL :: int32 where
  "IPL_ORIGIN_TL = 0"

definition IPL_ORIGIN_BL :: int32 where
  "IPL_ORIGIN_BL = 1"

text \<open>
  \<open>struct CvCapture\<close> is a base class with virtual member functions. An object is its
  data (of some type \<open>'s\<close>, fixed by the backend) together with the member functions
  of its dynamic type; a member function that is not \<open>const\<close> returns the data as it
  is after the call. \<open>double\<close> is read as \<open>real\<close>: the adapters pass such values on or
  produce the constant 0, and compute nothing with them. An \<open>IplImage*\<close> is an optional
  image, the null pointer being \<open>None\<close>.
\<close>

record ('s, 'px) CvCapture =
  CvCapture_data :: 's
  CvCapture_getProperty :: "'s \<Rightarrow> int32 \<Rightarrow> real"
  CvCapture_setProperty :: "'s \<Rightarrow> int32 \<Rightarrow> real \<Rightarrow> bool \<times> 's"
  CvCapture_grabFrame :: "'s \<Rightarrow> bool \<times> 's"
  CvCapture_retrieveFrame :: "'s \<Rightarrow> int32 \<Rightarrow> 'px IplImage option \<times> 's"
  CvCapture_getCaptureDomain :: "'s \<Rightarrow> int32 \<times> 's"

text \<open>
  The member functions as \<open>struct CvCapture\<close> itself defines them. The enumerator
  \<open>cv::CAP_ANY\<close> is declared in \<open>opencv2/videoio.hpp\<close>, which is not among the sources:
  its value is the first argument, here and for \<open>struct CvVideoWriter\<close>.
\<close>

definition CvCapture_base :: "int32 \<Rightarrow> 's \<Rightarrow> ('s, 'px) CvCapture" where
  "CvCapture_base CAP_ANY s =
     \<lparr>CvCapture_data = s,
      CvCapture_getProperty = (\<lambda>s propId. 0),
      CvCapture_setProperty = (\<lambda>s propId v. (False, s)),
      CvCapture_grabFrame = (\<lambda>s. (True, s)),
      CvCapture_retrieveFrame = (\<lambda>s channel. (None, s)),
      CvCapture_getCaptureDomain = (\<lambda>s. (CAP_ANY, s))\<rparr>"

record ('s, 'px) CvVideoWriter =
  CvVideoWriter_data :: 's
  CvVideoWriter_writeFrame :: "'s \<Rightarrow> 'px IplImage option \<Rightarrow> bool \<times> 's"
  CvVideoWriter_getCaptureDomain :: "'s \<Rightarrow> int32"
  CvVideoWriter_getProperty :: "'s \<Rightarrow> int32 \<Rightarrow> real"

definition CvVideoWriter_base :: "int32 \<Rightarrow> 's \<Rightarrow> ('s, 'px) CvVideoWriter" where
  "CvVideoWriter_base CAP_ANY s =
     \<lparr>CvVideoWriter_data = s,
      CvVideoWriter_writeFrame = (\<lambda>s img. (False, s)),
      CvVideoWriter_getCaptureDomain = (\<lambda>s. CAP_ANY),
      CvVideoWriter_getProperty = (\<lambda>s propId. 0)\<rparr>"

section \<open>Images of the modern interface\<close>

text \<open>
  A \<open>cv::Mat\<close> is the list of its rows, the first row first; it carries no origin tag.
  The matrix without rows is the released one.
\<close>

type_synonym 'px Mat = "'px list list"

text \<open>
  Modelled from the spec: \<open>cv::cvarrToMat\<close>, \<open>Mat::copyTo\<close>, \<open>cv::flip\<close> and
  \<open>OutputArray::release\<close> belong to OpenCV's core module, which is not among the sources.
  \<open>cvarrToMat\<close> gives the matrix over the image's rows as they are stored, whatever
  the origin tag; \<open>copyTo\<close> makes the output a copy of the matrix; \<open>release\<close> leaves the
  output empty (size zero, no data); \<open>flip\<close> with flip code 0, the only one the adapter
  uses, is the vertical flip of the spec: output row \<open>r\<close> is source row
  \<open>height - 1 - r\<close>. A positive code flips each row, a negative one does both. Each
  function returns what the output holds after the call.
\<close>

definition cvarrToMat :: "'px IplImage \<Rightarrow> 'px Mat" where
  "cvarrToMat img = imageData img"

definition copyTo :: "'px Mat \<Rightarrow> 'px Mat \<Rightarrow> 'px Mat" where
  "copyTo m dst = m"

definition release :: "'px Mat \<Rightarrow> 'px Mat" where
  "release dst = []"

definition flip :: "'px Mat \<Rightarrow> 'px Mat \<Rightarrow> int32 \<Rightarrow> 'px Mat" where
  "flip src dst flipCode =
     (if flipCode = 0 then rev src
      else if 0 < sint flipCode then map rev src
      else rev (map rev src))"

text \<open>
  The rows of the picture an \<open>IplImage\<close> shows, from the top row of the picture to its
  bottom row: an image tagged bottom-to-top stores the bottom row first.
\<close>

definition rows_top_to_bottom :: "'px IplImage \<Rightarrow> 'px list list" where
  "rows_top_to_bottom img =
     (if origin img = IPL_ORIGIN_BL then rev (imageData img) else imageData img)"

section \<open>The wrappers: LegacyCapture and LegacyWriter\<close>

text \<open>
  \<open>class LegacyCapture\<close> holds the pointer \<open>cap\<close>; \<open>None\<close> is the null pointer. The C
  functions \<open>cvSetCaptureProperty\<close>, \<open>cvGrabFrame\<close> and \<open>cvRetrieveFrame\<close> are declared
  in \<open>videoio_c.h\<close> and defined outside the sources: each member function that calls one
  takes it as its first argument. Such a function gets the pointer and returns its
  result together with the object the pointer refers to after the call.
\<close>

record ('s, 'px) LegacyCapture =
  cap :: "('s, 'px) CvCapture option"

definition LegacyCapture_ctor :: "('s, 'px) CvCapture option \<Rightarrow> ('s, 'px) LegacyCapture" where
  "LegacyCapture_ctor c = \<lparr>cap = c\<rparr>"

definition LegacyCapture_getProperty :: "('s, 'px) LegacyCapture \<Rightarrow> int32 \<Rightarrow> real" where
  "LegacyCapture_getProperty a propId =
     (case cap a of
        Some c \<Rightarrow> CvCapture_getProperty c (CvCapture_data c) propId
      | None \<Rightarrow> 0)"

definition LegacyCapture_setProperty ::
  "(('s, 'px) CvCapture option \<Rightarrow> int32 \<Rightarrow> real \<Rightarrow> int32 \<times> ('s, 'px) CvCapture option) \<Rightarrow>
   ('s, 'px) LegacyCapture \<Rightarrow> int32 \<Rightarrow> real \<Rightarrow> bool \<times> ('s, 'px) LegacyCapture" where
  "LegacyCapture_setProperty cvSetCaptureProperty a propId v =
     (let r = cvSetCaptureProperty (cap a) propId v in (fst r \<noteq> 0, a\<lparr>cap := snd r\<rparr>))"

definition LegacyCapture_grabFrame ::
  "(('s, 'px) CvCapture option \<Rightarrow> int32 \<times> ('s, 'px) CvCapture option) \<Rightarrow>
   ('s, 'px) LegacyCapture \<Rightarrow> bool \<times> ('s, 'px) LegacyCapture" where
  "LegacyCapture_grabFrame cvGrabFrame a =
     (case cap a of
        Some c \<Rightarrow> (let r = cvGrabFrame (cap a) in (fst r \<noteq> 0, a\<lparr>cap := snd r\<rparr>))
      | None \<Rightarrow> (False, a))"

text \<open>
  \<open>retrieveFrame\<close> takes the content that the output array \<open>image\<close> has before the
  call as \<open>dst\<close> and returns the content after it between the result and the wrapper.
\<close>

definition LegacyCapture_retrieveFrame ::
  "(('s, 'px) CvCapture option \<Rightarrow> int32 \<Rightarrow> 'px IplImage option \<times> ('s, 'px) CvCapture option) \<Rightarrow>
   ('s, 'px) LegacyCapture \<Rightarrow> int32 \<Rightarrow> 'px Mat \<Rightarrow> bool \<times> 'px Mat \<times> ('s, 'px) LegacyCapture" where
  "LegacyCapture_retrieveFrame cvRetrieveFrame a channel dst =
     (let r = cvRetrieveFrame (cap a) channel; a' = a\<lparr>cap := snd r\<rparr> in
      case fst r of
        None \<Rightarrow> (False, release dst, a')
      | Some img \<Rightarrow>
          if origin img = IPL_ORIGIN_TL
          then (True, copyTo (cvarrToMat img) dst, a')
          else (let temp = cvarrToMat img in (True, flip temp dst 0, a')))"

definition LegacyCapture_isOpened :: "('s, 'px) LegacyCapture \<Rightarrow> bool" where
  "LegacyCapture_isOpened a = (cap a \<noteq> None)"

definition LegacyCapture_getCaptureDomain ::
  "('s, 'px) LegacyCapture \<Rightarrow> int32 \<times> ('s, 'px) LegacyCapture" where
  "LegacyCapture_getCaptureDomain a =
     (case cap a of
        Some c \<Rightarrow>
          (let r = CvCapture_getCaptureDomain c (CvCapture_data c)
           in (fst r, a\<lparr>cap := Some (c\<lparr>CvCapture_data := snd r\<rparr>)\<rparr>))
      | None \<Rightarrow> (0, a))"

definition getCvCapture :: "('s, 'px) LegacyCapture \<Rightarrow> ('s, 'px) CvCapture option" where
  "getCvCapture a = cap a"

record ('s, 'px) LegacyWriter =
  writer :: "('s, 'px) CvVideoWriter option"

definition LegacyWriter_ctor :: "('s, 'px) CvVideoWriter option \<Rightarrow> ('s, 'px) LegacyWriter" where
  "LegacyWriter_ctor wri = \<lparr>writer = wri\<rparr>"

definition LegacyWriter_getProperty :: "('s, 'px) LegacyWriter \<Rightarrow> int32 \<Rightarrow> real" where
  "LegacyWriter_getProperty w propId =
     (case writer w of
        Some wr \<Rightarrow> CvVideoWriter_getProperty wr (CvVideoWriter_data wr) propId
      | None \<Rightarrow> 0)"

definition LegacyWriter_setProperty ::
  "('s, 'px) LegacyWriter \<Rightarrow> int32 \<Rightarrow> real \<Rightarrow> bool \<times> ('s, 'px) LegacyWriter" where
  "LegacyWriter_setProperty w propId v = (False, w)"

definition LegacyWriter_isOpened :: "('s, 'px) LegacyWriter \<Rightarrow> bool" where
  "LegacyWriter_isOpened w = (writer w \<noteq> None)"

definition LegacyWriter_getCaptureDomain :: "('s, 'px) LegacyWriter \<Rightarrow> int32" where
  "LegacyWriter_getCaptureDomain w =
     (case writer w of
        Some wr \<Rightarrow> CvVideoWriter_getCaptureDomain wr (CvVideoWriter_data wr)
      | None \<Rightarrow> 0)"

section \<open>Facts about the parameter bag\<close>

lemma find_if_le: "find_if P xs \<le> length xs"
  by (induction xs) auto

lemma find_if_found_iff: "find_if P xs \<noteq> length xs \<longleftrightarrow> (\<exists>x \<in> set xs. P x)"
  by (induction xs) auto

lemma find_if_holds: "find_if P xs \<noteq> length xs \<Longrightarrow> P (xs ! find_if P xs)"
  by (induction xs) auto

lemma find_if_first: "j < find_if P xs \<Longrightarrow> \<not> P (xs ! j)"
proof (induction xs arbitrary: j)
  case Nil
  then show ?case by simp
next
  case (Cons x xs)
  then show ?case by (cases j) (auto split: if_splits)
qed

lemma find_if_lt: "find_if P xs \<noteq> length xs \<Longrightarrow> find_if P xs < length xs"
  using find_if_le [of P xs] by simp

lemma find_if_key_mark:
  "find_if (\<lambda>param. key param = k) (xs[i := (xs ! i)\<lparr>isConsumed := True\<rparr>])
     = find_if (\<lambda>param. key param = k) xs"
proof (induction xs arbitrary: i)
  case Nil
  then show ?case by simp
next
  case (Cons x xs)
  then show ?case by (cases i) auto
qed

lemma get_found:
  "find_if (\<lambda>param. key param = k) (params B) = i \<Longrightarrow> i \<noteq> length (params B) \<Longrightarrow>
     get c B k = Inr (c (val (params B ! i)),
                      B\<lparr>params := (params B)[i := (params B ! i)\<lparr>isConsumed := True\<rparr>]\<rparr>)"
  by (auto simp: get_def Let_def)

lemma getIntVector_fold:
  "fold (\<lambda>param vint_params. (vint_params @ [key param]) @ [val param]) xs acc
     = acc @ concat (map (\<lambda>p. [key p, val p]) xs)"
  by (induction xs arbitrary: acc) auto

lemma getIntVector_default: "getIntVector VideoParameters_default = []"
  by (simp add: getIntVector_def VideoParameters_default_def)

lemma getIntVector_add: "getIntVector (add B k v) = getIntVector B @ [k, v]"
  by (simp add: getIntVector_def add_def getIntVector_fold VideoParameter_ctor_def
      VideoParameter_default_def)

lemma getUnused_fold:
  "fold (\<lambda>param unusedParams.
           if \<not> isConsumed param then unusedParams @ [key param] else unusedParams) xs acc
     = acc @ map key (filter (\<lambda>p. \<not> isConsumed p) xs)"
  by (induction xs arbitrary: acc) auto

lemma getUnused_filter: "getUnused B = map key (filter (\<lambda>p. \<not> isConsumed p) (params B))"
  by (simp add: getUnused_def getUnused_fold)

lemma ctor_loop_getIntVector:
  "count = length ps \<Longrightarrow> i \<le> count \<Longrightarrow> even (count - i) \<Longrightarrow>
     getIntVector (ctor_loop ps count i B) = getIntVector B @ drop i ps"
proof (induction ps count i B rule: ctor_loop.induct)
  case (1 ps count i B)
  show ?case
  proof (cases "i < count")
    case False
    with "1.prems" show ?thesis by (subst ctor_loop.simps) simp
  next
    case True
    from "1.prems"(3) obtain m where m: "count - i = 2 * m"
      unfolding dvd_def by blast
    with True have le: "i + 2 \<le> count" by arith
    have ev: "even (count - (i + 2))" using "1.prems"(3) le by simp
    have split: "drop i ps = ps ! i # ps ! (i + 1) # drop (i + 2) ps"
      using le "1.prems"(1) by (simp add: Cons_nth_drop_Suc)
    have "getIntVector (ctor_loop ps count i B)
            = getIntVector (ctor_loop ps count (i + 2) (add B (ps ! i) (ps ! (i + 1))))"
      using True by (subst ctor_loop.simps) simp
    also have "\<dots> = getIntVector (add B (ps ! i) (ps ! (i + 1))) @ drop (i + 2) ps"
      using "1.IH" [OF True "1.prems"(1) le ev] .
    also have "\<dots> = getIntVector B @ drop i ps"
      by (simp add: getIntVector_add split)
    finally show ?thesis .
  qed
qed

lemma map_key_mark:
  "map key (xs[i := (xs ! i)\<lparr>isConsumed := True\<rparr>]) = map key xs"
proof (induction xs arbitrary: i)
  case Nil
  then show ?case by simp
next
  case (Cons x xs)
  then show ?case by (cases i) auto
qed

lemma get_default_found:
  "find_if (\<lambda>param. key param = k) (params B) = i \<Longrightarrow> i \<noteq> length (params B) \<Longrightarrow>
     get_default c B k d = (c (val (params B ! i)),
                            B\<lparr>params := (params B)[i := (params B ! i)\<lparr>isConsumed := True\<rparr>]\<rparr>)"
  by (auto simp: get_default_def Let_def)

lemma get_default_not_found:
  "find_if (\<lambda>param. key param = k) (params B) = length (params B) \<Longrightarrow>
     get_default c B k d = (d, B)"
  by (simp add: get_default_def)

lemma get_not_found:
  "find_if (\<lambda>param. key param = k) (params B) = length (params B) \<Longrightarrow>
     get c B k = Inl (StsBadArg k)"
  by (simp add: get_def)

text \<open>
  One lookup that returns: either its key is absent and the bag is as before (the
  optional form only), or the entry at the first position with the key is marked.
\<close>

lemma run_lookup_params:
  assumes "run_lookup B l = Inr r"
  shows "(lookup_key l \<notin> key ` set (params B) \<and> snd r = B) \<or>
         (\<exists>i<length (params B). key (params B ! i) = lookup_key l \<and>
            params (snd r) = (params B)[i := (params B ! i)\<lparr>isConsumed := True\<rparr>])"
proof -
  let ?i = "find_if (\<lambda>param. key param = lookup_key l) (params B)"
  show ?thesis
  proof (cases "?i = length (params B)")
    case True
    then have absent: "lookup_key l \<notin> key ` set (params B)"
      using find_if_found_iff [of "\<lambda>param. key param = lookup_key l" "params B"] by auto
    have "snd r = B"
    proof (cases l)
      case (Required c k)
      with assms True show ?thesis by (simp add: get_not_found)
    next
      case (Optional c k d)
      with assms True show ?thesis by (auto simp: get_default_not_found)
    qed
    with absent show ?thesis by simp
  next
    case False
    then have lt: "?i < length (params B)"
      by (rule find_if_lt)
    have k: "key (params B ! ?i) = lookup_key l"
      using find_if_holds [OF False] .
    have "params (snd r) = (params B)[?i := (params B ! ?i)\<lparr>isConsumed := True\<rparr>]"
    proof (cases l)
      case (Required c k)
      with assms False show ?thesis
        using get_found [of k B ?i c] by auto
    next
      case (Optional c k d)
      with assms False show ?thesis
        using get_default_found [of k B ?i c d] by auto
    qed
    with lt k show ?thesis by blast
  qed
qed

lemma run_lookup_keys:
  assumes "run_lookup B l = Inr r"
  shows "map key (params (snd r)) = map key (params B)"
  using run_lookup_params [OF assms] by (auto simp: map_key_mark)

lemma run_lookups_all_consumed:
  assumes "distinct (map key (params B))"
    and "run_lookups B ls = Inr B'"
    and "\<forall>j<length (params B).
           key (params B ! j) \<in> lookup_key ` set ls \<or> isConsumed (params B ! j)"
  shows "\<forall>j<length (params B'). isConsumed (params B' ! j)"
  using assms
proof (induction ls arbitrary: B)
  case Nil
  then show ?case by simp
next
  case (Cons l ls)
  from Cons.prems(2) obtain r where r: "run_lookup B l = Inr r"
    and rest: "run_lookups (snd r) ls = Inr B'"
    by (auto split: sum.splits)
  have keys: "map key (params (snd r)) = map key (params B)"
    using r by (rule run_lookup_keys)
  then have dist: "distinct (map key (params (snd r)))"
    using Cons.prems(1) by simp
  have len: "length (params (snd r)) = length (params B)"
    using keys by (metis length_map)
  have "key (params (snd r) ! j) \<in> lookup_key ` set ls \<or> isConsumed (params (snd r) ! j)"
    if j: "j < length (params (snd r))" for j
  proof -
    from j len have j': "j < length (params B)" by simp
    from run_lookup_params [OF r] show ?thesis
    proof (elim disjE conjE exE)
      assume absent: "lookup_key l \<notin> key ` set (params B)" and same: "snd r = B"
      from j' have "key (params B ! j) \<in> key ` set (params B)" by simp
      with absent have "key (params B ! j) \<noteq> lookup_key l" by metis
      with Cons.prems(3) j' same show ?thesis by auto
    next
      fix i
      assume i: "i < length (params B)" "key (params B ! i) = lookup_key l"
        and upd: "params (snd r) = (params B)[i := (params B ! i)\<lparr>isConsumed := True\<rparr>]"
      show ?thesis
      proof (cases "j = i")
        case True
        with i show ?thesis by (simp add: upd)
      next
        case False
        have "key (params B ! j) \<noteq> lookup_key l"
        proof
          assume "key (params B ! j) = lookup_key l"
          with i Cons.prems(1) j' have "j = i"
            using nth_eq_iff_index_eq [of "map key (params B)" j i] by simp
          with False show False ..
        qed
        with Cons.prems(3) j' False show ?thesis
          by (auto simp: upd)
      qed
    qed
  qed
  then show ?case
    using Cons.IH [OF dist rest] by blast
qed

lemma run_lookups_succeeds:
  "\<forall>l \<in> set ls. is_Required l \<longrightarrow> lookup_key l \<in> key ` set (params B) \<Longrightarrow>
     \<exists>B'. run_lookups B ls = Inr B'"
proof (induction ls arbitrary: B)
  case Nil
  then show ?case by simp
next
  case (Cons l ls)
  have "\<exists>r. run_lookup B l = Inr r"
  proof (cases l)
    case (Required c k)
    with Cons.prems have "k \<in> key ` set (params B)" by simp
    then have "find_if (\<lambda>param. key param = k) (params B) \<noteq> length (params B)"
      by (subst find_if_found_iff) auto
    from get_found [OF refl this, of c] Required show ?thesis by simp
  next
    case (Optional c k d)
    then show ?thesis by simp
  qed
  then obtain r where r: "run_lookup B l = Inr r" ..
  have "map key (params (snd r)) = map key (params B)"
    using r by (rule run_lookup_keys)
  then have "set (map key (params (snd r))) = set (map key (params B))"
    by simp
  then have "key ` set (params (snd r)) = key ` set (params B)"
    by simp
  with Cons.prems have "\<forall>l \<in> set ls. is_Required l \<longrightarrow> lookup_key l \<in> key ` set (params (snd r))"
    by simp
  from Cons.IH [OF this] r show ?case by simp
qed

lemma ctor_loop_unconsumed:
  "\<forall>p \<in> set (params B). \<not> isConsumed p \<Longrightarrow>
     \<forall>p \<in> set (params (ctor_loop ps count i B)). \<not> isConsumed p"
proof (induction ps count i B rule: ctor_loop.induct)
  case (1 ps count i B)
  show ?case
  proof (cases "i < count")
    case False
    with "1.prems" show ?thesis by (subst ctor_loop.simps) simp
  next
    case True
    have "\<forall>p \<in> set (params (add B (ps ! i) (ps ! (i + 1)))). \<not> isConsumed p"
      using "1.prems" by (simp add: add_def VideoParameter_ctor_def VideoParameter_default_def)
    from "1.IH" [OF True this] True show ?thesis
      by (subst ctor_loop.simps) simp
  qed
qed

lemma ctor_unconsumed:
  "VideoParameters_ctor S = Inr B \<Longrightarrow> \<forall>p \<in> set (params B). \<not> isConsumed p"
  using ctor_loop_unconsumed [of VideoParameters_default S "length S" 0]
  by (auto simp: VideoParameters_ctor_def VideoParameters_default_def Let_def split: if_splits)

section \<open>Claims about the parameter bag\<close>

text \<open>
  C1. For every even-length integer sequence \<open>S\<close>, the bag constructed from \<open>S\<close> exists
  and \<open>getIntVector\<close> reads exactly \<open>S\<close> back, in order; for every odd-length \<open>S\<close>
  the constructor raises \<open>StsVecLengthErr\<close> and no bag is built.
\<close>

theorem ctor_getIntVector_roundtrip:
  "(even (length S) \<longrightarrow> (\<exists>B. VideoParameters_ctor S = Inr B \<and> getIntVector B = S)) \<and>
   (odd (length S) \<longrightarrow> VideoParameters_ctor S = Inl StsVecLengthErr)"
proof (cases "even (length S)")
  case True
  then have "getIntVector (ctor_loop S (length S) 0 VideoParameters_default) = S"
    by (simp add: ctor_loop_getIntVector getIntVector_default)
  with True show ?thesis
    by (simp add: VideoParameters_ctor_def even_iff_mod_2_eq_zero)
next
  case False
  then show ?thesis
    by (simp add: VideoParameters_ctor_def even_iff_mod_2_eq_zero)
qed

theorem ctor_getIntVector_roundtrip_witness:
  "(\<exists>B. VideoParameters_ctor [10, 1, 20, 0] = Inr B \<and> getIntVector B = [10, 1, 20, 0]) \<and>
   VideoParameters_ctor [7] = Inl StsVecLengthErr"
  using ctor_getIntVector_roundtrip [of "[10, 1, 20, 0]"] ctor_getIntVector_roundtrip [of "[7]"]
  by simp

text \<open>
  C3. For a key \<open>k\<close> that some entry of the bag \<open>B\<close> has, let \<open>i\<close> be the first position
  with that key and \<open>v\<close> the value stored there. Then \<open>has\<close> is true; \<open>get\<close> returns
  \<open>v\<close> converted by the instance of \<open>castParameterTo\<close> it is called with (for \<open>bool\<close>:
  true iff \<open>v\<close> is not zero; for \<open>int\<close>: \<open>v\<close> itself; for another integer type or
  \<open>double\<close>: the cast of \<open>v\<close>); the bag after the call is \<open>B\<close> with entry \<open>i\<close> marked consumed and
  nothing else changed; and a second \<open>get\<close> of \<open>k\<close> on that bag succeeds with the same
  value and leaves it as it is.
\<close>

theorem get_present:
  assumes "k \<in> key ` set (params B)"
  shows "\<exists>i v B'. i < length (params B) \<and> key (params B ! i) = k \<and>
           (\<forall>j<i. key (params B ! j) \<noteq> k) \<and>
           v = val (params B ! i) \<and>
           B' = B\<lparr>params := (params B)[i := (params B ! i)\<lparr>isConsumed := True\<rparr>]\<rparr> \<and>
           has B k \<and>
           get cast B k = Inr (cast v, B') \<and>
           get castParameterTo_bool B k = Inr (v \<noteq> 0, B') \<and>
           get castParameterTo_int B k = Inr (v, B') \<and>
           get castParameterTo B k = Inr (scast v :: 'a::len word, B') \<and>
           get castParameterTo_double B k = Inr (real_of_int (sint v), B') \<and>
           isConsumed (params B' ! i) \<and>
           get cast B' k = Inr (cast v, B')"
proof -
  define i where "i = find_if (\<lambda>param. key param = k) (params B)"
  define B' where "B' = B\<lparr>params := (params B)[i := (params B ! i)\<lparr>isConsumed := True\<rparr>]\<rparr>"
  from assms have found: "i \<noteq> length (params B)"
    unfolding i_def by (subst find_if_found_iff) auto
  then have lt: "i < length (params B)"
    unfolding i_def by (rule find_if_lt)
  have key_i: "key (params B ! i) = k"
    using found find_if_holds [of "\<lambda>param. key param = k" "params B"] by (simp add: i_def)
  have first: "\<forall>j<i. key (params B ! j) \<noteq> k"
    using find_if_first [of _ "\<lambda>param. key param = k" "params B"] by (simp add: i_def)
  note get1 = get_found [OF i_def [symmetric] found, folded B'_def]
  have i': "find_if (\<lambda>param. key param = k) (params B') = i"
    by (simp add: B'_def find_if_key_mark i_def)
  have get2: "get cast B' k = Inr (cast (val (params B ! i)), B')"
    using found lt by (simp add: get_def Let_def i') (simp add: B'_def)
  have "has B k"
    using found by (simp add: has_def Let_def i_def)
  moreover have "isConsumed (params B' ! i)"
    using lt by (simp add: B'_def)
  ultimately show ?thesis
    using lt key_i first get2
      get1 [of cast] get1 [of castParameterTo_bool] get1 [of castParameterTo_int]
      get1 [of "castParameterTo :: int32 \<Rightarrow> 'a word"] get1 [of castParameterTo_double]
    by (intro exI [of _ i] exI [of _ "val (params B ! i)"] exI [of _ B'])
       (simp add: B'_def [symmetric] castParameterTo_bool_def castParameterTo_int_def
          castParameterTo_def castParameterTo_double_def)
qed

theorem get_present_witness:
  "20 \<in> key ` set (params \<lparr>params = [\<lparr>key = 10, val = 1, isConsumed = False\<rparr>,
                                      \<lparr>key = 20, val = 0, isConsumed = False\<rparr>]\<rparr>) \<and>
   get castParameterTo_bool \<lparr>params = [\<lparr>key = 10, val = 1, isConsumed = False\<rparr>,
                                        \<lparr>key = 20, val = 0, isConsumed = False\<rparr>]\<rparr> 20
     = Inr (False, \<lparr>params = [\<lparr>key = 10, val = 1, isConsumed = False\<rparr>,
                              \<lparr>key = 20, val = 0, isConsumed = True\<rparr>]\<rparr>) \<and>
   get castParameterTo_bool \<lparr>params = [\<lparr>key = 10, val = 1, isConsumed = False\<rparr>,
                                        \<lparr>key = 20, val = 0, isConsumed = True\<rparr>]\<rparr> 20
     = Inr (False, \<lparr>params = [\<lparr>key = 10, val = 1, isConsumed = False\<rparr>,
                              \<lparr>key = 20, val = 0, isConsumed = True\<rparr>]\<rparr>)"
proof -
  let ?B = "\<lparr>params = [\<lparr>key = 10, val = 1, isConsumed = False\<rparr>,
                       \<lparr>key = 20, val = 0, isConsumed = False\<rparr>]\<rparr>"
  have h: "20 \<in> key ` set (params ?B)" by simp
  from get_present [OF h, of castParameterTo_bool, where ?'a = 32]
  obtain i v B' where i: "i < length (params ?B)" "key (params ?B ! i) = 20"
    and v: "v = val (params ?B ! i)"
    and B': "B' = ?B\<lparr>params := (params ?B)[i := (params ?B ! i)\<lparr>isConsumed := True\<rparr>]\<rparr>"
    and g1: "get castParameterTo_bool ?B 20 = Inr (castParameterTo_bool v, B')"
    and g2: "get castParameterTo_bool B' 20 = Inr (castParameterTo_bool v, B')"
    by blast
  from i have "i = 1"
    by (cases i) auto
  with v B' g1 g2 h show ?thesis
    by (simp add: castParameterTo_bool_def)
qed

text \<open>
  C4. For a key \<open>k\<close> that no entry of the bag \<open>B\<close> has: \<open>has\<close> is false; the required
  \<open>get\<close> raises \<open>StsBadArg\<close> for \<open>k\<close>; the optional \<open>get\<close> returns the default it was
  given and the bag is as before, so no entry is marked consumed.
\<close>

theorem get_absent:
  assumes "k \<notin> key ` set (params B)"
  shows "\<not> has B k \<and> get cast B k = Inl (StsBadArg k) \<and> get_default cast B k d = (d, B)"
proof -
  from assms have "find_if (\<lambda>param. key param = k) (params B) = length (params B)"
    using find_if_found_iff [of "\<lambda>param. key param = k" "params B"] by auto
  then show ?thesis
    by (simp add: has_def get_def get_default_def)
qed

theorem get_absent_witness:
  "30 \<notin> key ` set (params \<lparr>params = [\<lparr>key = 10, val = 1, isConsumed = False\<rparr>,
                                      \<lparr>key = 20, val = 0, isConsumed = False\<rparr>]\<rparr>) \<and>
   \<not> has \<lparr>params = [\<lparr>key = 10, val = 1, isConsumed = False\<rparr>,
                     \<lparr>key = 20, val = 0, isConsumed = False\<rparr>]\<rparr> 30 \<and>
   get castParameterTo_int \<lparr>params = [\<lparr>key = 10, val = 1, isConsumed = False\<rparr>,
                                       \<lparr>key = 20, val = 0, isConsumed = False\<rparr>]\<rparr> 30
     = Inl (StsBadArg 30) \<and>
   get_default castParameterTo_int
       \<lparr>params = [\<lparr>key = 10, val = 1, isConsumed = False\<rparr>,
                   \<lparr>key = 20, val = 0, isConsumed = False\<rparr>]\<rparr> 30 99
     = (99, \<lparr>params = [\<lparr>key = 10, val = 1, isConsumed = False\<rparr>,
                       \<lparr>key = 20, val = 0, isConsumed = False\<rparr>]\<rparr>)"
proof -
  let ?B = "\<lparr>params = [\<lparr>key = 10, val = 1, isConsumed = False\<rparr>,
                       \<lparr>key = 20, val = 0, isConsumed = False\<rparr>]\<rparr>"
  have h: "30 \<notin> key ` set (params ?B)" by simp
  from get_absent [OF h, of castParameterTo_int 99] h show ?thesis by simp
qed

text \<open>
  C5. For a bag none of whose entries is consumed (no typed lookup has happened), and so
  for every bag as the constructor builds it, \<open>getUnused\<close> is the key sequence of the
  bag, in order. For a bag whose keys are pairwise distinct, any sequence of typed
  lookups (required or optional form, each with its own conversion, in any order) that
  looks up every key of the bag, and whose required lookups ask for keys of the bag
  only, runs without an exception, and \<open>getUnused\<close> of the bag after it is empty.
\<close>

theorem getUnused_fresh_and_after_lookups:
  "((\<forall>p \<in> set (params B). \<not> isConsumed p) \<longrightarrow> getUnused B = map key (params B)) \<and>
   (VideoParameters_ctor S = Inr B \<longrightarrow> getUnused B = map key (params B)) \<and>
   (distinct (map key (params B)) \<and>
    key ` set (params B) \<subseteq> lookup_key ` set ls \<and>
    (\<forall>l \<in> set ls. is_Required l \<longrightarrow> lookup_key l \<in> key ` set (params B)) \<longrightarrow>
      (\<exists>B'. run_lookups B ls = Inr B' \<and> getUnused B' = []))"
proof (intro conjI impI)
  assume "\<forall>p \<in> set (params B). \<not> isConsumed p"
  then show "getUnused B = map key (params B)"
    by (simp add: getUnused_filter)
next
  assume "VideoParameters_ctor S = Inr B"
  then have "\<forall>p \<in> set (params B). \<not> isConsumed p"
    by (rule ctor_unconsumed)
  then show "getUnused B = map key (params B)"
    by (simp add: getUnused_filter)
next
  assume a: "distinct (map key (params B)) \<and>
    key ` set (params B) \<subseteq> lookup_key ` set ls \<and>
    (\<forall>l \<in> set ls. is_Required l \<longrightarrow> lookup_key l \<in> key ` set (params B))"
  then have d: "distinct (map key (params B))"
    by (rule conjunct1)
  from a have s: "key ` set (params B) \<subseteq> lookup_key ` set ls"
    by (rule conjunct2 [THEN conjunct1])
  from a have q: "\<forall>l \<in> set ls. is_Required l \<longrightarrow> lookup_key l \<in> key ` set (params B)"
    by (rule conjunct2 [THEN conjunct2])
  from run_lookups_succeeds [OF q]
  obtain B' where B': "run_lookups B ls = Inr B'" ..
  have "\<forall>j<length (params B).
          key (params B ! j) \<in> lookup_key ` set ls \<or> isConsumed (params B ! j)"
  proof (intro allI impI)
    fix j
    assume "j < length (params B)"
    then have "key (params B ! j) \<in> key ` set (params B)" by simp
    with s have "key (params B ! j) \<in> lookup_key ` set ls" by (rule subsetD)
    then show "key (params B ! j) \<in> lookup_key ` set ls \<or> isConsumed (params B ! j)" ..
  qed
  from run_lookups_all_consumed [OF d B' this]
  have "\<forall>j<length (params B'). isConsumed (params B' ! j)" .
  then have "\<forall>p \<in> set (params B'). isConsumed p"
    by (simp add: all_set_conv_all_nth)
  then have "getUnused B' = []"
    by (simp add: getUnused_filter)
  with B' show "\<exists>B'. run_lookups B ls = Inr B' \<and> getUnused B' = []"
    by blast
qed

theorem getUnused_fresh_and_after_lookups_witness:
  "VideoParameters_ctor [10, 1, 20, 0]
     = Inr \<lparr>params = [\<lparr>key = 10, val = 1, isConsumed = False\<rparr>,
                       \<lparr>key = 20, val = 0, isConsumed = False\<rparr>]\<rparr> \<and>
   getUnused \<lparr>params = [\<lparr>key = 10, val = 1, isConsumed = False\<rparr>,
                        \<lparr>key = 20, val = 0, isConsumed = False\<rparr>]\<rparr> = [10, 20] \<and>
   (\<exists>B'. run_lookups
            \<lparr>params = [\<lparr>key = 10, val = 1, isConsumed = False\<rparr>,
                        \<lparr>key = 20, val = 0, isConsumed = False\<rparr>]\<rparr>
            [Optional (\<lambda>v. Inl (castParameterTo_bool v)) 20 (Inl True),
             Optional (\<lambda>v. Inr (castParameterTo_int v)) 30 (Inr 99),
             Required (\<lambda>v. Inr (castParameterTo_int v)) 10] = Inr B' \<and>
         getUnused B' = [])"
proof -
  let ?B = "\<lparr>params = [\<lparr>key = 10, val = 1, isConsumed = False\<rparr>,
                       \<lparr>key = 20, val = 0, isConsumed = False\<rparr>]\<rparr>"
  let ?ls = "[Optional (\<lambda>v. Inl (castParameterTo_bool v)) 20 (Inl True),
              Optional (\<lambda>v. Inr (castParameterTo_int v)) 30 (Inr 99),
              Required (\<lambda>v. Inr (castParameterTo_int v)) 10] :: (bool + int32) lookup list"
  have c: "VideoParameters_ctor [10, 1, 20, 0] = Inr ?B"
    by (simp add: VideoParameters_ctor_def ctor_loop.simps add_def VideoParameter_ctor_def
        VideoParameter_default_def VideoParameters_default_def)
  from getUnused_fresh_and_after_lookups [of ?B "[10, 1, 20, 0]" ?ls] c
  show ?thesis
    by simp
qed

text \<open>
  C5, as first stated for every bag: without distinct keys the second half fails. The
  constructor accepts \<open>[10, 1, 10, 2]\<close>, whose only key is 10; a lookup of 10, in the
  required and in the optional form, marks the first entry only, and \<open>getUnused\<close> still
  reports 10 for the second one.
\<close>

theorem getUnused_duplicate_key_counterexample:
  "VideoParameters_ctor [10, 1, 10, 2]
     = Inr \<lparr>params = [\<lparr>key = 10, val = 1, isConsumed = False\<rparr>,
                       \<lparr>key = 10, val = 2, isConsumed = False\<rparr>]\<rparr> \<and>
   key ` set (params \<lparr>params = [\<lparr>key = 10, val = 1, isConsumed = False\<rparr>,
                                 \<lparr>key = 10, val = 2, isConsumed = False\<rparr>]\<rparr>) = {10} \<and>
   run_lookups
       \<lparr>params = [\<lparr>key = 10, val = 1, isConsumed = False\<rparr>,
                   \<lparr>key = 10, val = 2, isConsumed = False\<rparr>]\<rparr>
       [Required castParameterTo_int 10, Optional castParameterTo_int 10 0]
     = Inr \<lparr>params = [\<lparr>key = 10, val = 1, isConsumed = True\<rparr>,
                       \<lparr>key = 10, val = 2, isConsumed = False\<rparr>]\<rparr> \<and>
   getUnused \<lparr>params = [\<lparr>key = 10, val = 1, isConsumed = True\<rparr>,
                        \<lparr>key = 10, val = 2, isConsumed = False\<rparr>]\<rparr> = [10]"
  by (simp add: VideoParameters_ctor_def ctor_loop.simps add_def VideoParameter_ctor_def
      VideoParameter_default_def VideoParameters_default_def get_def get_default_def
      getUnused_def)

section \<open>Claims about the legacy wrappers\<close>

text \<open>
  C2. When \<open>cvRetrieveFrame\<close> yields an image, \<open>retrieveFrame\<close> returns true. If the
  image is tagged top-to-bottom, the output is the image's rows unchanged; if it is tagged
  bottom-to-top, the output has the same height and its row \<open>r\<close> is the source's row
  \<open>height - 1 - r\<close>. In both cases the output lists the rows of the picture from top
  to bottom.
\<close>

theorem retrieveFrame_orientation:
  assumes "cvRetrieveFrame (cap a) channel = (Some img, c')"
  shows "(origin img = IPL_ORIGIN_TL \<longrightarrow>
            LegacyCapture_retrieveFrame cvRetrieveFrame a channel dst
              = (True, imageData img, a\<lparr>cap := c'\<rparr>)) \<and>
         (origin img = IPL_ORIGIN_BL \<longrightarrow>
            (\<exists>out. LegacyCapture_retrieveFrame cvRetrieveFrame a channel dst
                     = (True, out, a\<lparr>cap := c'\<rparr>) \<and>
                   length out = length (imageData img) \<and>
                   (\<forall>r<length (imageData img).
                      out ! r = imageData img ! (length (imageData img) - 1 - r)))) \<and>
         (origin img = IPL_ORIGIN_TL \<or> origin img = IPL_ORIGIN_BL \<longrightarrow>
            fst (snd (LegacyCapture_retrieveFrame cvRetrieveFrame a channel dst))
              = rows_top_to_bottom img)"
proof (intro conjI impI)
  assume "origin img = IPL_ORIGIN_TL"
  with assms show "LegacyCapture_retrieveFrame cvRetrieveFrame a channel dst
      = (True, imageData img, a\<lparr>cap := c'\<rparr>)"
    by (simp add: LegacyCapture_retrieveFrame_def copyTo_def cvarrToMat_def)
next
  assume bl: "origin img = IPL_ORIGIN_BL"
  then have "origin img \<noteq> IPL_ORIGIN_TL"
    by (simp add: IPL_ORIGIN_BL_def IPL_ORIGIN_TL_def)
  with assms have res: "LegacyCapture_retrieveFrame cvRetrieveFrame a channel dst
      = (True, rev (imageData img), a\<lparr>cap := c'\<rparr>)"
    by (simp add: LegacyCapture_retrieveFrame_def flip_def cvarrToMat_def)
  have "\<forall>r<length (imageData img).
          rev (imageData img) ! r = imageData img ! (length (imageData img) - 1 - r)"
    by (simp add: rev_nth)
  with res show "\<exists>out. LegacyCapture_retrieveFrame cvRetrieveFrame a channel dst
                     = (True, out, a\<lparr>cap := c'\<rparr>) \<and>
                   length out = length (imageData img) \<and>
                   (\<forall>r<length (imageData img).
                      out ! r = imageData img ! (length (imageData img) - 1 - r))"
    by simp
next
  assume "origin img = IPL_ORIGIN_TL \<or> origin img = IPL_ORIGIN_BL"
  with assms show "fst (snd (LegacyCapture_retrieveFrame cvRetrieveFrame a channel dst))
      = rows_top_to_bottom img"
    by (auto simp: LegacyCapture_retrieveFrame_def flip_def copyTo_def cvarrToMat_def
        rows_top_to_bottom_def IPL_ORIGIN_BL_def IPL_ORIGIN_TL_def)
qed

theorem retrieveFrame_orientation_witness:
  "LegacyCapture_retrieveFrame
       (\<lambda>c channel. (Some \<lparr>origin = IPL_ORIGIN_BL, imageData = [[1, 2], [3, 4], [5, 6 :: nat]]\<rparr>, c))
       \<lparr>cap = Some (CvCapture_base 0 ())\<rparr> 0 [[9, 9]]
     = (True, [[5, 6], [3, 4], [1, 2]], \<lparr>cap = Some (CvCapture_base 0 ())\<rparr>) \<and>
   LegacyCapture_retrieveFrame
       (\<lambda>c channel. (Some \<lparr>origin = IPL_ORIGIN_TL, imageData = [[1, 2], [3, 4], [5, 6 :: nat]]\<rparr>, c))
       \<lparr>cap = Some (CvCapture_base 0 ())\<rparr> 0 [[9, 9]]
     = (True, [[1, 2], [3, 4], [5, 6]], \<lparr>cap = Some (CvCapture_base 0 ())\<rparr>)"
proof -
  let ?a = "\<lparr>cap = Some (CvCapture_base 0 () :: (unit, nat) CvCapture)\<rparr>"
  let ?bl = "\<lparr>origin = IPL_ORIGIN_BL, imageData = [[1, 2], [3, 4], [5, 6 :: nat]]\<rparr>"
  let ?tl = "\<lparr>origin = IPL_ORIGIN_TL, imageData = [[1, 2], [3, 4], [5, 6 :: nat]]\<rparr>"
  have hb: "(\<lambda>c channel. (Some ?bl, c)) (cap ?a) (0 :: int32) = (Some ?bl, cap ?a)"
    by simp
  have ht: "(\<lambda>c channel. (Some ?tl, c)) (cap ?a) (0 :: int32) = (Some ?tl, cap ?a)"
    by simp
  note bl = retrieveFrame_orientation
      [of "\<lambda>c channel. (Some ?bl, c)" ?a 0 ?bl "cap ?a" "[[9, 9]]", OF hb]
  note tl = retrieveFrame_orientation
      [of "\<lambda>c channel. (Some ?tl, c)" ?a 0 ?tl "cap ?a" "[[9, 9]]", OF ht]
  from bl have "fst (snd (LegacyCapture_retrieveFrame (\<lambda>c channel. (Some ?bl, c)) ?a 0 [[9, 9]]))
      = [[5, 6], [3, 4], [1, 2]]"
    by (simp add: rows_top_to_bottom_def)
  moreover from bl obtain out
    where "LegacyCapture_retrieveFrame (\<lambda>c channel. (Some ?bl, c)) ?a 0 [[9, 9]] = (True, out, ?a)"
    by auto
  ultimately have "LegacyCapture_retrieveFrame (\<lambda>c channel. (Some ?bl, c)) ?a 0 [[9, 9]]
      = (True, [[5, 6], [3, 4], [1, 2]], ?a)"
    by simp
  moreover from tl have "LegacyCapture_retrieveFrame (\<lambda>c channel. (Some ?tl, c)) ?a 0 [[9, 9]]
      = (True, [[1, 2], [3, 4], [5, 6]], ?a)"
    by simp
  ultimately show ?thesis
    by simp
qed

text \<open>
  C6. When \<open>cvRetrieveFrame\<close> yields no image, \<open>retrieveFrame\<close> returns false and the
  output is the released matrix, without rows, whatever it held before the call.
\<close>

theorem retrieveFrame_no_frame:
  assumes "fst (cvRetrieveFrame (cap a) channel) = None"
  shows "LegacyCapture_retrieveFrame cvRetrieveFrame a channel dst
           = (False, [], a\<lparr>cap := snd (cvRetrieveFrame (cap a) channel)\<rparr>)"
  using assms by (simp add: LegacyCapture_retrieveFrame_def release_def)

theorem retrieveFrame_no_frame_witness:
  "fst ((\<lambda>c channel. (None, c))
          (cap \<lparr>cap = Some (CvCapture_base 0 () :: (unit, nat) CvCapture)\<rparr>) (0 :: int32)) = None \<and>
   LegacyCapture_retrieveFrame (\<lambda>c channel. (None, c))
       \<lparr>cap = Some (CvCapture_base 0 () :: (unit, nat) CvCapture)\<rparr> 0 [[1, 2], [3, 4]]
     = (False, [], \<lparr>cap = Some (CvCapture_base 0 ())\<rparr>)"
proof -
  let ?a = "\<lparr>cap = Some (CvCapture_base 0 () :: (unit, nat) CvCapture)\<rparr>"
  have h: "fst ((\<lambda>c channel. (None :: nat IplImage option, c)) (cap ?a) (0 :: int32)) = None"
    by simp
  from retrieveFrame_no_frame
      [of "\<lambda>c channel. (None :: nat IplImage option, c)" ?a 0 "[[1, 2], [3, 4]]"] h
  show ?thesis
    by simp
qed

text \<open>
  C7. \<open>isOpened\<close> of a capture wrapper and of a writer wrapper is false exactly when the
  wrapped pointer is null; it reads nothing else, so what the wrapped object would do
  on a later grab or write plays no part.
\<close>

theorem isOpened_iff_attached:
  "LegacyCapture_isOpened a = (cap a \<noteq> None) \<and> LegacyWriter_isOpened w = (writer w \<noteq> None)"
  by (simp add: LegacyCapture_isOpened_def LegacyWriter_isOpened_def)

theorem isOpened_iff_attached_witness:
  "\<not> LegacyCapture_isOpened \<lparr>cap = None :: (unit, nat) CvCapture option\<rparr> \<and>
   LegacyCapture_isOpened
     \<lparr>cap = Some ((CvCapture_base 0 () :: (unit, nat) CvCapture)
                    \<lparr>CvCapture_grabFrame := \<lambda>s. (False, s)\<rparr>)\<rparr> \<and>
   \<not> LegacyWriter_isOpened \<lparr>writer = None :: (unit, nat) CvVideoWriter option\<rparr> \<and>
   LegacyWriter_isOpened \<lparr>writer = Some (CvVideoWriter_base 0 () :: (unit, nat) CvVideoWriter)\<rparr>"
  using isOpened_iff_attached
      [of "\<lparr>cap = None :: (unit, nat) CvCapture option\<rparr>"
          "\<lparr>writer = None :: (unit, nat) CvVideoWriter option\<rparr>"]
    isOpened_iff_attached
      [of "\<lparr>cap = Some ((CvCapture_base 0 () :: (unit, nat) CvCapture)
                         \<lparr>CvCapture_grabFrame := \<lambda>s. (False, s)\<rparr>)\<rparr>"
          "\<lparr>writer = Some (CvVideoWriter_base 0 () :: (unit, nat) CvVideoWriter)\<rparr>"]
  by simp

text \<open>
  \<open>getCaptureDomain\<close> of a capture wrapper returns what the wrapped object's
  \<open>getCaptureDomain\<close> returns when an object is attached, and zero when the pointer is
  null. Whether that zero differs from \<open>cv::CAP_ANY\<close> (C8) depends on the enumerator's
  value, which the sources do not give.
\<close>

lemma LegacyCapture_getCaptureDomain_cases:
  "(cap a = Some c \<longrightarrow>
      LegacyCapture_getCaptureDomain a
        = (fst (CvCapture_getCaptureDomain c (CvCapture_data c)),
           a\<lparr>cap := Some (c\<lparr>CvCapture_data := snd (CvCapture_getCaptureDomain c (CvCapture_data c))\<rparr>)\<rparr>)) \<and>
   (cap a = None \<longrightarrow> LegacyCapture_getCaptureDomain a = (0, a))"
  by (simp add: LegacyCapture_getCaptureDomain_def Let_def)

lemma CvCapture_base_getCaptureDomain:
  "fst (LegacyCapture_getCaptureDomain \<lparr>cap = Some (CvCapture_base CAP_ANY s)\<rparr>) = CAP_ANY"
  by (simp add: LegacyCapture_getCaptureDomain_def Let_def CvCapture_base_def)

text \<open>
  C9. \<open>setProperty\<close> of a writer wrapper returns false for every property id and value,
  with or without a wrapped writer, and leaves the wrapper as it is.
\<close>

theorem LegacyWriter_setProperty_false:
  "LegacyWriter_setProperty w propId v = (False, w)"
  by (simp add: LegacyWriter_setProperty_def)

theorem LegacyWriter_setProperty_false_witness:
  "LegacyWriter_setProperty \<lparr>writer = None :: (unit, nat) CvVideoWriter option\<rparr> 5 30
     = (False, \<lparr>writer = None\<rparr>) \<and>
   LegacyWriter_setProperty \<lparr>writer = Some (CvVideoWriter_base 0 () :: (unit, nat) CvVideoWriter)\<rparr> 5 30
     = (False, \<lparr>writer = Some (CvVideoWriter_base 0 ())\<rparr>)"
  using LegacyWriter_setProperty_false [of "\<lparr>writer = None :: (unit, nat) CvVideoWriter option\<rparr>" 5 30]
    LegacyWriter_setProperty_false
      [of "\<lparr>writer = Some (CvVideoWriter_base 0 () :: (unit, nat) CvVideoWriter)\<rparr>" 5 30]
  by simp

text \<open>
  C10. For a capture wrapper whose pointer is null, \<open>grabFrame\<close> returns false and leaves
  the wrapper as it is, whatever \<open>cvGrabFrame\<close> would do, and \<open>getProperty\<close> returns 0:
  both results come from the branch for the null pointer, in which no member function
  of a wrapped object and no C function is applied.
\<close>

theorem null_cap_grabFrame_getProperty:
  assumes "cap a = None"
  shows "LegacyCapture_grabFrame cvGrabFrame a = (False, a) \<and>
         LegacyCapture_getProperty a propId = 0"
  using assms by (simp add: LegacyCapture_grabFrame_def LegacyCapture_getProperty_def)

theorem null_cap_grabFrame_getProperty_witness:
  "cap \<lparr>cap = None :: (unit, nat) CvCapture option\<rparr> = None \<and>
   LegacyCapture_grabFrame (\<lambda>c. (1, c)) \<lparr>cap = None :: (unit, nat) CvCapture option\<rparr>
     = (False, \<lparr>cap = None\<rparr>) \<and>
   LegacyCapture_getProperty \<lparr>cap = None :: (unit, nat) CvCapture option\<rparr> 3 = 0"
proof -
  have h: "cap \<lparr>cap = None :: (unit, nat) CvCapture option\<rparr> = None" by simp
  from null_cap_grabFrame_getProperty [OF h, of "\<lambda>c. (1, c)" 3] h show ?thesis
    by simp
qed

end
